theory Spec2Isabelle
  imports Main "HOL-Library.Multiset"
begin

section \<open>Data model\<close>

text \<open>
  A JavaScript string is modelled as a \<^typ>\<open>string\<close>, one \<^typ>\<open>char\<close> per code unit
  (code units below 256). The type \<open>Message\<close> of \<open>lib/types/Message.ts\<close> is a record;
  the fields \<open>id\<close> and \<open>text\<close> carry the suffix \<open>_msg\<close> because both names are taken
  in Isabelle. A \<open>Date\<close> is the integer that \<open>getTime()\<close> returns for it.
\<close>

record Message =
  id_msg :: string
  text_msg :: string
  sender :: string
  timestamp :: int
  readBy :: "string list"

text \<open>
  What a handler sends: the three server-to-client events with their payloads, and
  the two ways of sending, \<open>io.emit\<close> (to every connection) and \<open>socket.emit\<close> (to the
  connection with the given socket id).
\<close>

datatype push =
    ChatMessage Message
  | MessageUpdated Message
  | OnlineUsers "string list"

datatype emit =
    IoEmit push
  | SocketEmit string push

text \<open>
  The server's two module-level variables. \<open>users\<close> is a JavaScript \<open>Map\<close>, which
  iterates in insertion order: an association list from socket id to username.
\<close>

record server =
  users :: "(string \<times> string) list"
  messages :: "Message list"

definition initial_server :: server where
  "initial_server = \<lparr>users = [], messages = []\<rparr>"

subsection \<open>The operations of \<open>Map\<close> and \<open>Array\<close> that the server uses\<close>

text \<open>\<open>Map.prototype.get\<close>: the value of the key, \<open>undefined\<close> (here \<open>None\<close>) without one.\<close>

fun users_get :: "(string \<times> string) list \<Rightarrow> string \<Rightarrow> string option" where
  "users_get [] k = None"
| "users_get ((k', v) # ps) k = (if k' = k then Some v else users_get ps k)"

text \<open>\<open>Map.prototype.set\<close>: a present key keeps its position, a new key goes last.\<close>

fun users_set :: "(string \<times> string) list \<Rightarrow> string \<Rightarrow> string \<Rightarrow> (string \<times> string) list" where
  "users_set [] k v = [(k, v)]"
| "users_set ((k', v') # ps) k v = (if k' = k then (k, v) # ps else (k', v') # users_set ps k v)"

text \<open>\<open>Map.prototype.delete\<close>: removes the entry of the key.\<close>

fun users_delete :: "(string \<times> string) list \<Rightarrow> string \<Rightarrow> (string \<times> string) list" where
  "users_delete [] k = []"
| "users_delete ((k', v') # ps) k = (if k' = k then ps else (k', v') # users_delete ps k)"

text \<open>
  The condition \<open>if (x)\<close> on the result of \<open>users.get\<close>: \<open>undefined\<close> is falsy, and so
  is the empty string.
\<close>

fun truthy :: "string option \<Rightarrow> bool" where
  "truthy None = False"
| "truthy (Some v) = (v \<noteq> [])"

text \<open>\<open>Array.prototype.findIndex\<close>: the first index that satisfies the test; \<open>-1\<close> is \<open>None\<close>.\<close>

fun findIndex :: "('a \<Rightarrow> bool) \<Rightarrow> 'a list \<Rightarrow> nat option" where
  "findIndex P [] = None"
| "findIndex P (x # xs) =
     (if P x then Some 0 else (case findIndex P xs of None \<Rightarrow> None | Some i \<Rightarrow> Some (Suc i)))"

text \<open>\<open>xs.slice(-n)\<close>: the last \<open>n\<close> elements, the whole array when it is shorter.\<close>

definition slice_last :: "nat \<Rightarrow> 'a list \<Rightarrow> 'a list" where
  "slice_last n xs = (if length xs \<le> n then xs else drop (length xs - n) xs)"

text \<open>
  \<open>String.prototype.trim\<close> removes white space and line terminators from both ends.
  Below 256 these are the code units 9 to 13, 32 and 160.
\<close>

definition isWhiteSpace :: "char \<Rightarrow> bool" where
  "isWhiteSpace c = (of_char c \<in> {9, 10, 11, 12, 13, 32, 160 :: nat})"

definition trim :: "string \<Rightarrow> string" where
  "trim s = rev (dropWhile isWhiteSpace (rev (dropWhile isWhiteSpace s)))"

section \<open>The server's handlers\<close>

text \<open>
  Each handler takes the state and returns the new state with the list of what it
  sent, in the order of sending. \<open>socket_id\<close> is \<open>socket.id\<close> of the connection the
  handler was registered for; \<open>uuid\<close> and \<open>now\<close> are what \<open>uuidv4()\<close> and \<open>new Date()\<close>
  return in this run of the handler.
\<close>

definition getOnlineUsers :: "server \<Rightarrow> string list" where
  "getOnlineUsers s = map snd (users s)"

definition broadcastOnlineUsers :: "server \<Rightarrow> emit list" where
  "broadcastOnlineUsers s = [IoEmit (OnlineUsers (getOnlineUsers s))]"

definition systemMessage :: "string \<Rightarrow> int \<Rightarrow> string \<Rightarrow> string list \<Rightarrow> Message" where
  "systemMessage uuid now txt rb =
     \<lparr>id_msg = uuid, text_msg = txt, sender = ''System'', timestamp = now, readBy = rb\<rparr>"

definition push_and_emit :: "server \<Rightarrow> Message \<Rightarrow> server \<times> emit list" where
  "push_and_emit s m = (s\<lparr>messages := messages s @ [m]\<rparr>, [IoEmit (ChatMessage m)])"

definition user_joined :: "string \<Rightarrow> string \<Rightarrow> int \<Rightarrow> server \<Rightarrow> string \<Rightarrow> server \<times> emit list" where
  "user_joined socket_id uuid now s username =
     (let previousUsername = users_get (users s) socket_id;
          (s1, out1) =
            (if truthy previousUsername then
               (if the previousUsername \<noteq> username then
                  push_and_emit s (systemMessage uuid now
                    (the previousUsername @ '' changed their name to '' @ username) [username])
                else (s, []))
             else
               push_and_emit s (systemMessage uuid now (username @ '' joined the chat'') [username]));
          s2 = s1\<lparr>users := users_set (users s1) socket_id username\<rparr>;
          messageHistoryLimit = 50;
          sortedMessages = sort_key timestamp (messages s2);
          recentMessages = slice_last messageHistoryLimit sortedMessages
      in (s2, out1 @ map (\<lambda>msg. SocketEmit socket_id (ChatMessage msg)) recentMessages
                @ broadcastOnlineUsers s2))"

definition change_username :: "string \<Rightarrow> string \<Rightarrow> int \<Rightarrow> server \<Rightarrow> string \<Rightarrow> string \<Rightarrow> server \<times> emit list" where
  "change_username socket_id uuid now s oldUsername newUsername =
     (if oldUsername \<noteq> newUsername \<and> trim newUsername \<noteq> [] then
        (let (s1, out1) = push_and_emit s (systemMessage uuid now
                (oldUsername @ '' changed their name to '' @ newUsername) [newUsername]);
             s2 = s1\<lparr>users := users_set (users s1) socket_id newUsername\<rparr>
         in (s2, out1 @ broadcastOnlineUsers s2))
      else (s, []))"

definition chat_message :: "string \<Rightarrow> int \<Rightarrow> server \<Rightarrow> string \<Rightarrow> string \<Rightarrow> server \<times> emit list" where
  "chat_message uuid now s txt sndr =
     push_and_emit s
       \<lparr>id_msg = uuid, text_msg = txt, sender = sndr, timestamp = now, readBy = [sndr]\<rparr>"

definition read_receipt :: "server \<Rightarrow> string \<Rightarrow> string \<Rightarrow> server \<times> emit list" where
  "read_receipt s messageId reader =
     (case findIndex (\<lambda>msg. id_msg msg = messageId) (messages s) of
        None \<Rightarrow> (s, [])
      | Some messageIndex \<Rightarrow>
          (let message = messages s ! messageIndex
           in if reader \<notin> set (readBy message) then
                (let message' = message\<lparr>readBy := readBy message @ [reader]\<rparr>
                 in (s\<lparr>messages := (messages s)[messageIndex := message']\<rparr>,
                     [IoEmit (MessageUpdated message')]))
              else (s, [])))"

definition disconnect :: "string \<Rightarrow> string \<Rightarrow> int \<Rightarrow> server \<Rightarrow> server \<times> emit list" where
  "disconnect socket_id uuid now s =
     (let username = users_get (users s) socket_id
      in if truthy username then
           (let (s1, out1) = push_and_emit s (systemMessage uuid now (the username @ '' left the chat'') []);
                s2 = s1\<lparr>users := users_delete (users s1) socket_id\<rparr>
            in (s2, out1 @ broadcastOnlineUsers s2))
         else (s, []))"

text \<open>
  An inbound event of the server with what it carries. A run of the server handles a
  list of events, each with the id and the time that \<open>uuidv4()\<close> and \<open>new Date()\<close>
  give while it is handled, and collects what is sent.
\<close>

datatype event =
    EvUserJoined string string
  | EvChangeUsername string string string
  | EvChatMessage string string
  | EvReadReceipt string string
  | EvDisconnect string

fun server_step :: "server \<Rightarrow> string \<times> int \<times> event \<Rightarrow> server \<times> emit list" where
  "server_step s (uuid, now, EvUserJoined socket_id username) = user_joined socket_id uuid now s username"
| "server_step s (uuid, now, EvChangeUsername socket_id oldUsername newUsername) =
     change_username socket_id uuid now s oldUsername newUsername"
| "server_step s (uuid, now, EvChatMessage txt sndr) = chat_message uuid now s txt sndr"
| "server_step s (uuid, now, EvReadReceipt messageId reader) = read_receipt s messageId reader"
| "server_step s (uuid, now, EvDisconnect socket_id) = disconnect socket_id uuid now s"

fun run :: "server \<Rightarrow> (string \<times> int \<times> event) list \<Rightarrow> server \<times> emit list" where
  "run s [] = (s, [])"
| "run s (e # es) =
     (let (s1, out1) = server_step s e; (s2, out2) = run s1 es in (s2, out1 @ out2))"

fun is_read_receipt :: "string \<times> int \<times> event \<Rightarrow> bool" where
  "is_read_receipt (uuid, now, EvReadReceipt messageId reader) = True"
| "is_read_receipt (uuid, now, ev) = False"

text \<open>The pushes that went to single connections by \<open>socket.emit\<close>, in the order of sending.\<close>

fun socket_pushes :: "emit list \<Rightarrow> (string \<times> push) list" where
  "socket_pushes [] = []"
| "socket_pushes (SocketEmit c p # out) = (c, p) # socket_pushes out"
| "socket_pushes (IoEmit p # out) = socket_pushes out"

text \<open>The messages that went to every connection as \<open>chat message\<close>, in the order of sending.\<close>

fun broadcast_messages :: "emit list \<Rightarrow> Message list" where
  "broadcast_messages [] = []"
| "broadcast_messages (IoEmit (ChatMessage m) # out) = m # broadcast_messages out"
| "broadcast_messages (e # out) = broadcast_messages out"

text \<open>
  How a record of the log may change: every field but \<open>readBy\<close> stays, and the old
  \<open>readBy\<close> is the front of the new one. A log grows when no record goes and each
  record changes in this way only.
\<close>

definition record_grows :: "Message \<Rightarrow> Message \<Rightarrow> bool" where
  "record_grows m m' \<longleftrightarrow>
     id_msg m' = id_msg m \<and> text_msg m' = text_msg m \<and> sender m' = sender m \<and>
     timestamp m' = timestamp m \<and> take (length (readBy m)) (readBy m') = readBy m"

definition log_grows :: "Message list \<Rightarrow> Message list \<Rightarrow> bool" where
  "log_grows old new \<longleftrightarrow>
     length old \<le> length new \<and> list_all2 record_grows old (take (length old) new)"

section \<open>The client\<close>

text \<open>
  The part of the state of \<open>App\<close> that the handlers of \<open>App.tsx\<close> read and write: the
  mirror \<open>messages\<close> (here \<open>messages_cl\<close>, the server's record has the name already),
  \<open>username\<close> and its ref, the list of online users, and \<open>socketRef.current\<close>, which is
  \<open>null\<close> (\<open>None\<close>) or a socket with its flag \<open>connected\<close>.
\<close>

record client =
  messages_cl :: "Message list"
  username :: string
  usernameRef :: string
  onlineUsers :: "string list"
  socketRef :: "bool option"

text \<open>The one event a client sends in these handlers: \<open>read receipt\<close> with \<open>messageId\<close> and \<open>reader\<close>.\<close>

datatype client_emit = ReadReceipt string string

text \<open>The updater that \<open>handleChatMessage\<close> gives to \<open>setMessages\<close>.\<close>

definition mergeMessage :: "Message list \<Rightarrow> Message \<Rightarrow> Message list" where
  "mergeMessage prevMessages msg =
     (let messageExists = list_ex (\<lambda>m. id_msg m = id_msg msg) prevMessages
      in if messageExists then prevMessages else prevMessages @ [msg])"

definition handleChatMessage :: "client \<Rightarrow> Message \<Rightarrow> client \<times> client_emit list" where
  "handleChatMessage c msg =
     (c\<lparr>messages_cl := mergeMessage (messages_cl c) msg\<rparr>,
      if usernameRef c \<noteq> [] \<and> sender msg \<noteq> usernameRef c \<and> socketRef c \<noteq> None
      then [ReadReceipt (id_msg msg) (usernameRef c)] else [])"

definition handleMessageUpdated :: "client \<Rightarrow> Message \<Rightarrow> client" where
  "handleMessageUpdated c updatedMsg =
     c\<lparr>messages_cl := map (\<lambda>msg. if id_msg msg = id_msg updatedMsg then updatedMsg else msg) (messages_cl c)\<rparr>"

definition handleOnlineUsers :: "client \<Rightarrow> string list \<Rightarrow> client" where
  "handleOnlineUsers c us = c\<lparr>onlineUsers := us\<rparr>"

text \<open>\<open>visible\<close> says whether \<open>document.visibilityState\<close> is \<open>"visible"\<close> when the handler runs.\<close>

definition handleVisibilityChange :: "bool \<Rightarrow> client \<Rightarrow> client \<times> client_emit list" where
  "handleVisibilityChange visible c =
     (if visible \<and> username c \<noteq> [] \<and> socketRef c = Some True then
        (c, concat (map (\<lambda>msg.
              if sender msg \<noteq> username c \<and> username c \<notin> set (readBy msg) \<and> socketRef c \<noteq> None
              then [ReadReceipt (id_msg msg) (username c)] else []) (messages_cl c)))
      else (c, []))"

text \<open>
  An entry of the observer is \<open>isIntersecting\<close> with what \<open>getAttribute("data-message-id")\<close>
  returns for its target, \<open>null\<close> being \<open>None\<close>.
\<close>

definition observerEntry :: "client \<Rightarrow> bool \<times> string option \<Rightarrow> client_emit list" where
  "observerEntry c entry =
     (case entry of (isIntersecting, messageId) \<Rightarrow>
        if isIntersecting then
          (case messageId of
             None \<Rightarrow> []
           | Some mid \<Rightarrow>
               if mid = [] then []
               else (case find (\<lambda>m. id_msg m = mid) (messages_cl c) of
                       None \<Rightarrow> []
                     | Some message \<Rightarrow>
                         if sender message \<noteq> username c \<and> username c \<notin> set (readBy message)
                            \<and> socketRef c \<noteq> None
                         then [ReadReceipt mid (username c)] else []))
        else [])"

definition observerCallback :: "client \<Rightarrow> (bool \<times> string option) list \<Rightarrow> client \<times> client_emit list" where
  "observerCallback c entries = (c, concat (map (observerEntry c) entries))"

text \<open>What a client does with a push of the server, and with a sequence of them.\<close>

fun client_receive :: "client \<Rightarrow> push \<Rightarrow> client" where
  "client_receive c (ChatMessage msg) = fst (handleChatMessage c msg)"
| "client_receive c (MessageUpdated updatedMsg) = handleMessageUpdated c updatedMsg"
| "client_receive c (OnlineUsers us) = handleOnlineUsers c us"

definition deliver :: "client \<Rightarrow> push list \<Rightarrow> client" where
  "deliver c ps = fold (\<lambda>p c'. client_receive c' p) ps c"

text \<open>
  The condition under which a receipt for a message of the mirror is wanted: the
  message is there, its sender is not the user, and the user is not among its readers.
\<close>

definition receipt_guard :: "client \<Rightarrow> string \<Rightarrow> string \<Rightarrow> bool" where
  "receipt_guard c self mid \<longleftrightarrow>
     list_ex (\<lambda>m. id_msg m = mid \<and> sender m \<noteq> self \<and> self \<notin> set (readBy m)) (messages_cl c)"

section \<open>States and messages of the examples\<close>

definition msg_hi :: Message where
  "msg_hi = \<lparr>id_msg = ''m1'', text_msg = ''hi'', sender = ''Ana'', timestamp = 10, readBy = [''Ana'']\<rparr>"

definition msg_late :: Message where
  "msg_late = \<lparr>id_msg = ''m2'', text_msg = ''yo'', sender = ''Bob'', timestamp = 30, readBy = [''Bob'']\<rparr>"

definition msg_early :: Message where
  "msg_early = \<lparr>id_msg = ''m3'', text_msg = ''ok'', sender = ''Ana'', timestamp = 20, readBy = [''Ana'']\<rparr>"

definition msg_bob_joined :: Message where
  "msg_bob_joined = \<lparr>id_msg = ''m4'', text_msg = ''Bob joined the chat'', sender = ''System'',
     timestamp = 40, readBy = [''Bob'']\<rparr>"

definition server_two_anas :: server where
  "server_two_anas = \<lparr>users = [(''c1'', ''Ana''), (''c2'', ''Ana'')], messages = [msg_hi]\<rparr>"

definition server_log3 :: server where
  "server_log3 = \<lparr>users = [(''c1'', ''Ana'')], messages = [msg_hi, msg_late, msg_early]\<rparr>"

definition server_log60 :: server where
  "server_log60 = \<lparr>users = [],
     messages = map (\<lambda>i. \<lparr>id_msg = replicate i CHR ''x'', text_msg = ''hi'', sender = ''Ana'',
        timestamp = int i, readBy = [''Ana'']\<rparr>) [0..<60]\<rparr>"

definition server_empty_name :: server where
  "server_empty_name = fst (user_joined ''c1'' ''u1'' 1 initial_server [])"

definition client_bob :: client where
  "client_bob = \<lparr>messages_cl = [msg_hi], username = ''Bob'', usernameRef = ''Bob'',
     onlineUsers = [], socketRef = Some True\<rparr>"

section \<open>Lemmas about the array operations\<close>

lemma findIndex_None: "findIndex P xs = None \<longleftrightarrow> (\<forall>x \<in> set xs. \<not> P x)"
  by (induction xs) (auto split: option.splits)

lemma findIndex_Some:
  "findIndex P xs = Some i \<Longrightarrow> i < length xs \<and> P (xs ! i) \<and> (\<forall>j < i. \<not> P (xs ! j))"
proof (induction xs arbitrary: i)
  case Nil
  then show ?case by simp
next
  case (Cons x xs)
  show ?case
  proof (cases "P x")
    case True
    with Cons.prems show ?thesis by simp
  next
    case False
    with Cons.prems obtain k where k: "findIndex P xs = Some k" "i = Suc k"
      by (auto split: option.splits)
    from Cons.IH[OF k(1)] False k(2) show ?thesis
      by (auto simp: less_Suc_eq_0_disj)
  qed
qed

lemma findIndex_update:
  "findIndex P xs = Some i \<Longrightarrow> P y \<Longrightarrow> findIndex P (xs[i := y]) = Some i"
proof (induction xs arbitrary: i)
  case Nil
  then show ?case by simp
next
  case (Cons x xs)
  then show ?case by (cases "P x") (auto split: option.splits)
qed

section \<open>Read receipts on the server\<close>

lemma findIndex_find:
  "findIndex P xs = Some i \<Longrightarrow> find P xs = Some (xs ! i)"
  by (induction xs arbitrary: i) (auto split: option.splits if_splits)

lemma find_findIndex:
  "find P xs = Some x \<Longrightarrow> \<exists>i. findIndex P xs = Some i \<and> xs ! i = x"
  by (induction xs) (auto split: option.splits if_splits)

text \<open>
  Claim C1. A read receipt for message id \<open>m\<close> by reader \<open>r\<close> changes the log and is
  broadcast exactly when a record with id \<open>m\<close> is in the log and \<open>r\<close> is not among its
  readers: then \<open>r\<close> is appended to the readers of that record (the first with the id,
  the one \<open>findIndex\<close> meets) and the one thing sent is \<open>message updated\<close> with the whole
  updated record. When \<open>r\<close> is among the readers already, and when no record has the
  id, the handler returns the state as it was and sends nothing; it has no failing
  branch. Handling the same receipt a second time changes nothing and sends nothing.
\<close>

theorem read_receipt_iff:
  "(find (\<lambda>msg. id_msg msg = m) (messages s) = Some msg \<and> r \<notin> set (readBy msg) \<longrightarrow>
      (\<exists>i < length (messages s). messages s ! i = msg \<and>
         read_receipt s m r =
           (s\<lparr>messages := (messages s)[i := msg\<lparr>readBy := readBy msg @ [r]\<rparr>]\<rparr>,
            [IoEmit (MessageUpdated (msg\<lparr>readBy := readBy msg @ [r]\<rparr>))]))) \<and>
   (find (\<lambda>msg. id_msg msg = m) (messages s) = Some msg \<and> r \<in> set (readBy msg) \<longrightarrow>
      read_receipt s m r = (s, [])) \<and>
   (m \<notin> id_msg ` set (messages s) \<longrightarrow> read_receipt s m r = (s, [])) \<and>
   read_receipt (fst (read_receipt s m r)) m r = (fst (read_receipt s m r), [])"
proof (intro conjI impI)
  assume a: "find (\<lambda>msg. id_msg msg = m) (messages s) = Some msg \<and> r \<notin> set (readBy msg)"
  then obtain i where i: "findIndex (\<lambda>msg. id_msg msg = m) (messages s) = Some i" "messages s ! i = msg"
    using find_findIndex by fastforce
  from findIndex_Some[OF i(1)] have "i < length (messages s)" by simp
  with i a show "\<exists>i < length (messages s). messages s ! i = msg \<and>
         read_receipt s m r =
           (s\<lparr>messages := (messages s)[i := msg\<lparr>readBy := readBy msg @ [r]\<rparr>]\<rparr>,
            [IoEmit (MessageUpdated (msg\<lparr>readBy := readBy msg @ [r]\<rparr>))])"
    by (auto simp: read_receipt_def Let_def)
next
  assume a: "find (\<lambda>msg. id_msg msg = m) (messages s) = Some msg \<and> r \<in> set (readBy msg)"
  then obtain i where i: "findIndex (\<lambda>msg. id_msg msg = m) (messages s) = Some i" "messages s ! i = msg"
    using find_findIndex by fastforce
  with a show "read_receipt s m r = (s, [])"
    by (simp add: read_receipt_def Let_def)
next
  assume "m \<notin> id_msg ` set (messages s)"
  then have "findIndex (\<lambda>msg. id_msg msg = m) (messages s) = None"
    by (auto simp: findIndex_None)
  then show "read_receipt s m r = (s, [])"
    by (simp add: read_receipt_def)
next
  show "read_receipt (fst (read_receipt s m r)) m r = (fst (read_receipt s m r), [])"
  proof (cases "findIndex (\<lambda>msg. id_msg msg = m) (messages s)")
    case None
    then show ?thesis by (simp add: read_receipt_def)
  next
    case (Some i)
    let ?P = "\<lambda>msg. id_msg msg = m"
    from findIndex_Some[OF Some] have il: "i < length (messages s)" and pi: "?P (messages s ! i)"
      by simp_all
    show ?thesis
    proof (cases "r \<in> set (readBy (messages s ! i))")
      case True
      with Some show ?thesis by (simp add: read_receipt_def Let_def)
    next
      case False
      let ?m' = "(messages s ! i)\<lparr>readBy := readBy (messages s ! i) @ [r]\<rparr>"
      have "findIndex ?P ((messages s)[i := ?m']) = Some i"
        using findIndex_update[OF Some, of ?m'] pi by simp
      with Some False il show ?thesis
        by (simp add: read_receipt_def Let_def)
    qed
  qed
qed

theorem read_receipt_iff_witness:
  "read_receipt server_two_anas ''m1'' ''Bob'' =
     (server_two_anas\<lparr>messages := [msg_hi\<lparr>readBy := [''Ana'', ''Bob'']\<rparr>]\<rparr>,
      [IoEmit (MessageUpdated (msg_hi\<lparr>readBy := [''Ana'', ''Bob'']\<rparr>))]) \<and>
   read_receipt server_two_anas ''m1'' ''Ana'' = (server_two_anas, []) \<and>
   read_receipt server_two_anas ''m9'' ''Bob'' = (server_two_anas, [])"
  using read_receipt_iff[where m = "''m1''" and s = server_two_anas and msg = msg_hi and r = "''Bob''"]
        read_receipt_iff[where m = "''m1''" and s = server_two_anas and msg = msg_hi and r = "''Ana''"]
        read_receipt_iff[where m = "''m9''" and s = server_two_anas and msg = msg_hi and r = "''Bob''"]
  by (simp add: server_two_anas_def msg_hi_def)

section \<open>The client's mirror\<close>

lemma list_ex_id_msg: "list_ex (\<lambda>m. id_msg m = k) xs \<longleftrightarrow> k \<in> id_msg ` set xs"
  by (induction xs) auto

lemma mergeMessage_present:
  "id_msg msg \<in> id_msg ` set prev \<Longrightarrow> mergeMessage prev msg = prev"
  by (simp add: mergeMessage_def list_ex_id_msg)

lemma mergeMessage_ids:
  "map id_msg (mergeMessage prev msg) =
     (if id_msg msg \<in> set (map id_msg prev) then map id_msg prev else map id_msg prev @ [id_msg msg])"
  by (simp add: mergeMessage_def list_ex_id_msg)

lemma handleMessageUpdated_ids:
  "map id_msg (messages_cl (handleMessageUpdated c u)) = map id_msg (messages_cl c)"
  by (simp add: handleMessageUpdated_def comp_def if_distrib[of id_msg] cong: if_cong)

lemma client_receive_distinct:
  "distinct (map id_msg (messages_cl c)) \<Longrightarrow> distinct (map id_msg (messages_cl (client_receive c p)))"
proof (cases p)
  case (ChatMessage msg)
  assume "distinct (map id_msg (messages_cl c))"
  with ChatMessage show ?thesis
    by (simp add: handleChatMessage_def mergeMessage_ids del: set_map)
next
  case (MessageUpdated u)
  assume "distinct (map id_msg (messages_cl c))"
  with MessageUpdated show ?thesis
    by (simp only: client_receive.simps handleMessageUpdated_ids)
next
  case (OnlineUsers us)
  assume "distinct (map id_msg (messages_cl c))"
  with OnlineUsers show ?thesis
    by (simp add: handleOnlineUsers_def)
qed

lemma deliver_distinct:
  "distinct (map id_msg (messages_cl c)) \<Longrightarrow> distinct (map id_msg (messages_cl (deliver c ps)))"
  unfolding deliver_def
proof (induction ps arbitrary: c)
  case Nil
  then show ?case by simp
next
  case (Cons p ps)
  from Cons.IH[OF client_receive_distinct[OF Cons.prems]] show ?case by simp
qed

text \<open>
  Claim C9. The merge of an inbound \<open>chat message\<close> push into the mirror: when an entry
  of the mirror has the id of the pushed message, the push leaves the client's state
  as it was; a mirror without two entries of one id stays so under every sequence of
  pushes (in particular every mirror that grew from the empty one); and the mirror
  after receiving a push twice is the mirror after receiving it once.
\<close>

theorem merge_idempotent:
  "(id_msg msg \<in> id_msg ` set (messages_cl c) \<longrightarrow> fst (handleChatMessage c msg) = c) \<and>
   (distinct (map id_msg (messages_cl c)) \<longrightarrow> distinct (map id_msg (messages_cl (deliver c ps)))) \<and>
   distinct (map id_msg (messages_cl (deliver (c\<lparr>messages_cl := []\<rparr>) ps))) \<and>
   messages_cl (deliver c [ChatMessage msg, ChatMessage msg]) = messages_cl (deliver c [ChatMessage msg])"
proof (intro conjI impI)
  assume "id_msg msg \<in> id_msg ` set (messages_cl c)"
  then show "fst (handleChatMessage c msg) = c"
    by (simp add: handleChatMessage_def mergeMessage_present)
next
  assume "distinct (map id_msg (messages_cl c))"
  then show "distinct (map id_msg (messages_cl (deliver c ps)))"
    by (rule deliver_distinct)
next
  show "distinct (map id_msg (messages_cl (deliver (c\<lparr>messages_cl := []\<rparr>) ps)))"
    by (rule deliver_distinct) simp
next
  have "id_msg msg \<in> id_msg ` set (mergeMessage (messages_cl c) msg)"
    by (simp add: mergeMessage_def list_ex_id_msg)
  then show "messages_cl (deliver c [ChatMessage msg, ChatMessage msg]) = messages_cl (deliver c [ChatMessage msg])"
    by (simp add: deliver_def handleChatMessage_def mergeMessage_present)
qed

theorem merge_idempotent_witness:
  "fst (handleChatMessage client_bob msg_hi) = client_bob \<and>
   distinct (map id_msg (messages_cl client_bob)) \<and>
   map id_msg (messages_cl (deliver client_bob
       [ChatMessage msg_late, ChatMessage msg_hi, MessageUpdated msg_late, ChatMessage msg_late])) = [''m1'', ''m2'']"
  using merge_idempotent[where msg = msg_hi and c = client_bob
          and ps = "[ChatMessage msg_late, ChatMessage msg_hi, MessageUpdated msg_late, ChatMessage msg_late]"]
  by (simp add: client_bob_def msg_hi_def msg_late_def deliver_def handleChatMessage_def
        handleMessageUpdated_def mergeMessage_def)

text \<open>
  Claim C10. A \<open>message updated\<close> push whose id no entry of the mirror has leaves the
  client's state as it was: the record is not inserted.
\<close>

theorem message_updated_unknown_id:
  "id_msg updatedMsg \<notin> id_msg ` set (messages_cl c) \<Longrightarrow>
     handleMessageUpdated c updatedMsg = c \<and> client_receive c (MessageUpdated updatedMsg) = c"
proof -
  assume a: "id_msg updatedMsg \<notin> id_msg ` set (messages_cl c)"
  have "map (\<lambda>msg. if id_msg msg = id_msg updatedMsg then updatedMsg else msg) (messages_cl c) = messages_cl c"
    using a by (intro map_idI) (auto simp: image_iff)
  then show ?thesis
    by (simp add: handleMessageUpdated_def)
qed

theorem message_updated_unknown_id_witness:
  "id_msg msg_late \<notin> id_msg ` set (messages_cl client_bob) \<and>
   handleMessageUpdated client_bob msg_late = client_bob \<and>
   messages_cl (handleMessageUpdated client_bob msg_late) = [msg_hi]"
  using message_updated_unknown_id[where updatedMsg = msg_late and c = client_bob]
  by (simp add: client_bob_def msg_hi_def msg_late_def)

section \<open>Renaming\<close>

lemma dropWhile_all: "(\<forall>c \<in> set (dropWhile P s). P c) \<longleftrightarrow> (\<forall>c \<in> set s. P c)"
  by (induction s) auto

lemma trim_blank: "trim s = [] \<longleftrightarrow> (\<forall>c \<in> set s. isWhiteSpace c)"
  by (simp add: trim_def dropWhile_eq_Nil_conv dropWhile_all)

lemma users_get_set:
  "users_get (users_set us k v) k' = (if k' = k then Some v else users_get us k')"
  by (induction us) auto

text \<open>
  Claim C8. A \<open>change username\<close> event whose new name is blank after trimming, or equal
  to the old name, is dropped: the state (log and registry) is as before and nothing
  is sent. Otherwise one system message \<open>old changed their name to new\<close> with
  \<open>readBy = [new]\<close> is appended to the log and broadcast, the connection is bound to the
  new name, and the online list of the new registry is broadcast after the message.
\<close>

theorem change_username_cases:
  "(oldUsername = newUsername \<or> trim newUsername = [] \<longrightarrow>
      change_username socket_id uuid now s oldUsername newUsername = (s, [])) \<and>
   (oldUsername \<noteq> newUsername \<and> trim newUsername \<noteq> [] \<longrightarrow>
      change_username socket_id uuid now s oldUsername newUsername =
        (\<lparr>users = users_set (users s) socket_id newUsername,
          messages = messages s @
            [\<lparr>id_msg = uuid, text_msg = oldUsername @ '' changed their name to '' @ newUsername,
              sender = ''System'', timestamp = now, readBy = [newUsername]\<rparr>]\<rparr>,
         [IoEmit (ChatMessage
            \<lparr>id_msg = uuid, text_msg = oldUsername @ '' changed their name to '' @ newUsername,
              sender = ''System'', timestamp = now, readBy = [newUsername]\<rparr>),
          IoEmit (OnlineUsers (map snd (users_set (users s) socket_id newUsername)))]) \<and>
      users_get (users (fst (change_username socket_id uuid now s oldUsername newUsername))) socket_id
        = Some newUsername)"
  by (auto simp: change_username_def push_and_emit_def systemMessage_def broadcastOnlineUsers_def
        getOnlineUsers_def users_get_set)

theorem change_username_cases_witness:
  "change_username ''c1'' ''u9'' 99 server_two_anas ''Ana'' ''Ana'' = (server_two_anas, []) \<and>
   change_username ''c1'' ''u9'' 99 server_two_anas ''Ana'' '' '' = (server_two_anas, []) \<and>
   change_username ''c1'' ''u9'' 99 server_two_anas ''Ana'' ''Zoe'' =
     (\<lparr>users = [(''c1'', ''Zoe''), (''c2'', ''Ana'')],
       messages = [msg_hi, \<lparr>id_msg = ''u9'', text_msg = ''Ana changed their name to Zoe'',
          sender = ''System'', timestamp = 99, readBy = [''Zoe'']\<rparr>]\<rparr>,
      [IoEmit (ChatMessage \<lparr>id_msg = ''u9'', text_msg = ''Ana changed their name to Zoe'',
          sender = ''System'', timestamp = 99, readBy = [''Zoe'']\<rparr>),
       IoEmit (OnlineUsers [''Zoe'', ''Ana''])])"
  using change_username_cases[where oldUsername = "''Ana''" and newUsername = "''Ana''"
          and socket_id = "''c1''" and uuid = "''u9''" and now = 99 and s = server_two_anas]
        change_username_cases[where oldUsername = "''Ana''" and newUsername = "'' ''"
          and socket_id = "''c1''" and uuid = "''u9''" and now = 99 and s = server_two_anas]
        change_username_cases[where oldUsername = "''Ana''" and newUsername = "''Zoe''"
          and socket_id = "''c1''" and uuid = "''u9''" and now = 99 and s = server_two_anas]
  by (simp add: server_two_anas_def trim_def isWhiteSpace_def)

section \<open>When the client sends a read receipt\<close>

lemma find_Some_set: "find P xs = Some x \<Longrightarrow> x \<in> set xs \<and> P x"
  by (induction xs) (auto split: if_splits)

lemma observerEntry_guard:
  "ReadReceipt mid r \<in> set (observerEntry c entry) \<Longrightarrow>
     r = username c \<and> receipt_guard c (username c) mid"
proof -
  assume a: "ReadReceipt mid r \<in> set (observerEntry c entry)"
  obtain isIntersecting messageId where e: "entry = (isIntersecting, messageId)"
    by (cases entry)
  from a e have i: "isIntersecting"
    by (cases isIntersecting) (simp_all add: observerEntry_def)
  from a e i obtain mid' where m: "messageId = Some mid'"
    by (cases messageId) (simp_all add: observerEntry_def)
  from a e i m obtain message where f: "find (\<lambda>m. id_msg m = mid') (messages_cl c) = Some message"
    by (cases "find (\<lambda>m. id_msg m = mid') (messages_cl c)")
       (simp_all add: observerEntry_def split: if_splits)
  from a e i m f have g: "mid = mid'" "sender message \<noteq> username c"
      "username c \<notin> set (readBy message)" "r = username c"
    by (simp_all add: observerEntry_def split: if_splits)
  from find_Some_set[OF f] g show ?thesis
    by (auto simp: receipt_guard_def list_ex_iff)
qed

text \<open>
  The client of \<open>Bob\<close> receives the notice of Bob's own join, whose sender is
  \<open>System\<close> and whose readers are \<open>Bob\<close> already: a receipt is sent all the same.
\<close>

theorem chat_message_receipt_counterexample:
  "handleChatMessage client_bob msg_bob_joined =
     (client_bob\<lparr>messages_cl := [msg_hi, msg_bob_joined]\<rparr>, [ReadReceipt ''m4'' ''Bob'']) \<and>
   ''Bob'' \<in> set (readBy msg_bob_joined) \<and>
   \<not> receipt_guard client_bob ''Bob'' ''m4'' \<and>
   \<not> receipt_guard (fst (handleChatMessage client_bob msg_bob_joined)) ''Bob'' ''m4''"
  by (simp add: handleChatMessage_def mergeMessage_def receipt_guard_def client_bob_def
        msg_hi_def msg_bob_joined_def)

text \<open>
  Claim C3, as amended. A receipt sent when the tab becomes visible or when a message
  scrolls into view names the user as reader and is for a message that is in the
  mirror, whose sender is not the user and whose readers do not include the user.
  A receipt sent on receiving a \<open>chat message\<close> push is sent exactly when the user
  name held in the ref is not empty, the sender of the pushed message is not that
  name and the socket exists; it is for the pushed id, and an entry with that id is
  in the mirror after the merge. The readers of the message are not looked at there.
\<close>

theorem receipt_guards:
  "(ReadReceipt mid r \<in> set (snd (handleVisibilityChange visible c)) \<longrightarrow>
      r = username c \<and> receipt_guard c (username c) mid) \<and>
   (ReadReceipt mid r \<in> set (snd (observerCallback c entries)) \<longrightarrow>
      r = username c \<and> receipt_guard c (username c) mid) \<and>
   (ReadReceipt mid r \<in> set (snd (handleChatMessage c msg)) \<longleftrightarrow>
      mid = id_msg msg \<and> r = usernameRef c \<and>
      usernameRef c \<noteq> [] \<and> sender msg \<noteq> usernameRef c \<and> socketRef c \<noteq> None) \<and>
   id_msg msg \<in> id_msg ` set (messages_cl (fst (handleChatMessage c msg)))"
proof -
  have vis: "r = username c \<and> receipt_guard c (username c) mid"
    if "ReadReceipt mid r \<in> set (snd (handleVisibilityChange visible c))"
    using that
    by (auto simp: handleVisibilityChange_def receipt_guard_def list_ex_iff split: if_splits)
  have obs: "r = username c \<and> receipt_guard c (username c) mid"
    if "ReadReceipt mid r \<in> set (snd (observerCallback c entries))"
  proof -
    from that obtain entry where "ReadReceipt mid r \<in> set (observerEntry c entry)"
      by (auto simp: observerCallback_def)
    then show ?thesis by (rule observerEntry_guard)
  qed
  have recv: "ReadReceipt mid r \<in> set (snd (handleChatMessage c msg)) \<longleftrightarrow>
      mid = id_msg msg \<and> r = usernameRef c \<and>
      usernameRef c \<noteq> [] \<and> sender msg \<noteq> usernameRef c \<and> socketRef c \<noteq> None"
    by (auto simp: handleChatMessage_def)
  have present: "id_msg msg \<in> id_msg ` set (messages_cl (fst (handleChatMessage c msg)))"
    by (simp add: handleChatMessage_def mergeMessage_def list_ex_id_msg)
  from vis obs recv present show ?thesis by blast
qed

theorem receipt_guards_witness:
  "snd (handleVisibilityChange True client_bob) = [ReadReceipt ''m1'' ''Bob''] \<and>
   snd (observerCallback client_bob [(True, Some ''m1''), (False, Some ''m1''), (True, Some ''m7'')])
      = [ReadReceipt ''m1'' ''Bob''] \<and>
   snd (handleChatMessage client_bob msg_early) = [ReadReceipt ''m3'' ''Bob''] \<and>
   receipt_guard client_bob (username client_bob) ''m1''"
  using receipt_guards[where mid = "''m1''" and r = "''Bob''" and visible = True and c = client_bob
          and entries = "[(True, Some ''m1''), (False, Some ''m1''), (True, Some ''m7'')]"
          and msg = msg_early]
  by (simp add: handleVisibilityChange_def observerCallback_def observerEntry_def
        handleChatMessage_def client_bob_def msg_hi_def msg_early_def receipt_guard_def)

section \<open>The registry and the online list\<close>

lemma users_set_key_set: "fst ` set (users_set us k v) = insert k (fst ` set us)"
proof (induction us)
  case Nil
  show ?case by simp
next
  case (Cons p us)
  obtain k' v' where p: "p = (k', v')" by (cases p)
  with Cons show ?case by (cases "k' = k") (simp_all add: insert_commute)
qed

lemma users_set_distinct:
  "distinct (map fst us) \<Longrightarrow> distinct (map fst (users_set us k v))"
proof (induction us)
  case Nil
  then show ?case by simp
next
  case (Cons p us)
  obtain k' v' where p: "p = (k', v')" by (cases p)
  show ?case
  proof (cases "k' = k")
    case True
    with Cons.prems p show ?thesis by simp
  next
    case False
    with Cons p show ?thesis by (simp add: users_set_key_set)
  qed
qed

lemma users_delete_subset: "set (users_delete us k) \<subseteq> set us"
  by (induction us) (auto split: if_splits)

lemma users_delete_distinct:
  "distinct (map fst us) \<Longrightarrow> distinct (map fst (users_delete us k))"
proof (induction us)
  case Nil
  then show ?case by simp
next
  case (Cons p us)
  obtain k' v' where p: "p = (k', v')" by (cases p)
  from users_delete_subset[of us k] have "fst ` set (users_delete us k) \<subseteq> fst ` set us"
    by (rule image_mono)
  with Cons p show ?case by auto
qed

lemma users_get_Some_mem: "users_get us c = Some n \<Longrightarrow> (c, n) \<in> set us"
  by (induction us) (auto split: if_splits)

lemma users_get_mem_Some:
  "distinct (map fst us) \<Longrightarrow> (c, n) \<in> set us \<Longrightarrow> users_get us c = Some n"
  by (induction us) (auto simp: image_iff)

lemma users_get_delete:
  "distinct (map fst us) \<Longrightarrow>
     users_get (users_delete us k) k' = (if k' = k then None else users_get us k')"
proof (induction us)
  case Nil
  then show ?case by simp
next
  case (Cons p us)
  obtain a b where p: "p = (a, b)" by (cases p)
  have "users_get us a = None" if "a \<notin> fst ` set us"
    using that users_get_Some_mem[of us a] by (cases "users_get us a") (auto simp: image_iff)
  with Cons p show ?case by auto
qed

lemma bound_names:
  "distinct (map fst us) \<Longrightarrow> set (map snd us) = {n. \<exists>c. users_get us c = Some n}"
proof (intro set_eqI iffI)
  fix n
  assume d: "distinct (map fst us)" and "n \<in> set (map snd us)"
  then obtain c where "(c, n) \<in> set us" by auto
  from users_get_mem_Some[OF d this] show "n \<in> {n. \<exists>c. users_get us c = Some n}" by blast
next
  fix n
  assume "n \<in> {n. \<exists>c. users_get us c = Some n}"
  then obtain c where "users_get us c = Some n" by blast
  from users_get_Some_mem[OF this] show "n \<in> set (map snd us)" by force
qed

lemma user_joined_users:
  "users (fst (user_joined socket_id uuid now s name)) = users_set (users s) socket_id name"
  by (simp add: user_joined_def Let_def push_and_emit_def split_def)

lemma change_username_users:
  "users (fst (change_username socket_id uuid now s oldUsername newUsername)) =
     (if oldUsername \<noteq> newUsername \<and> trim newUsername \<noteq> []
      then users_set (users s) socket_id newUsername else users s)"
  by (simp add: change_username_def Let_def push_and_emit_def split_def)

lemma disconnect_users:
  "users (fst (disconnect socket_id uuid now s)) =
     (if truthy (users_get (users s) socket_id) then users_delete (users s) socket_id else users s)"
  by (simp add: disconnect_def Let_def push_and_emit_def split_def)

lemma step_users_distinct:
  "distinct (map fst (users s)) \<Longrightarrow> distinct (map fst (users (fst (server_step s e))))"
proof -
  assume d: "distinct (map fst (users s))"
  obtain uuid now ev where e: "e = (uuid, now, ev)" by (cases e)
  show ?thesis
  proof (cases ev)
    case (EvUserJoined c n)
    with e d show ?thesis by (simp add: user_joined_users users_set_distinct del: set_map)
  next
    case (EvChangeUsername c old new)
    with e d show ?thesis by (simp add: change_username_users users_set_distinct del: set_map)
  next
    case (EvChatMessage t sn)
    with e d show ?thesis by (simp add: chat_message_def push_and_emit_def)
  next
    case (EvReadReceipt m r)
    with e d show ?thesis by (simp add: read_receipt_def Let_def split: option.splits)
  next
    case (EvDisconnect c)
    with e d show ?thesis by (simp add: disconnect_users users_delete_distinct del: set_map)
  qed
qed

lemma step_payload:
  "IoEmit (OnlineUsers p) \<in> set (snd (server_step s e)) \<Longrightarrow>
     p = getOnlineUsers (fst (server_step s e))"
proof -
  assume a: "IoEmit (OnlineUsers p) \<in> set (snd (server_step s e))"
  obtain uuid now ev where e: "e = (uuid, now, ev)" by (cases e)
  show ?thesis
  proof (cases ev)
    case (EvUserJoined c n)
    with e a show ?thesis
      by (auto simp: user_joined_def Let_def push_and_emit_def split_def broadcastOnlineUsers_def
            split: if_splits)
  next
    case (EvChangeUsername c old new)
    with e a show ?thesis
      by (auto simp: change_username_def Let_def push_and_emit_def split_def broadcastOnlineUsers_def
            split: if_splits)
  next
    case (EvChatMessage t sn)
    with e a show ?thesis by (simp add: chat_message_def push_and_emit_def)
  next
    case (EvReadReceipt m r)
    with e a show ?thesis by (auto simp: read_receipt_def Let_def split: option.splits if_splits)
  next
    case (EvDisconnect c)
    with e a show ?thesis
      by (auto simp: disconnect_def Let_def push_and_emit_def split_def broadcastOnlineUsers_def
            split: if_splits)
  qed
qed

lemma run_users_distinct:
  "distinct (map fst (users s)) \<Longrightarrow> distinct (map fst (users (fst (run s es))))"
proof (induction es arbitrary: s)
  case Nil
  then show ?case by simp
next
  case (Cons e es)
  from Cons.IH[OF step_users_distinct[OF Cons.prems, of e]] show ?case
    by (simp add: split_def Let_def)
qed

text \<open>
  Two connections join as \<open>Ana\<close>: the online list broadcast by the second join names
  \<open>Ana\<close> twice.
\<close>

theorem online_users_counterexample:
  "last (snd (user_joined ''c2'' ''u2'' 2 (fst (user_joined ''c1'' ''u1'' 1 initial_server ''Ana'')) ''Ana''))
     = IoEmit (OnlineUsers [''Ana'', ''Ana'']) \<and>
   \<not> distinct (getOnlineUsers
       (fst (user_joined ''c2'' ''u2'' 2 (fst (user_joined ''c1'' ''u1'' 1 initial_server ''Ana'')) ''Ana'')))"
  by (simp add: user_joined_def initial_server_def Let_def push_and_emit_def systemMessage_def
        broadcastOnlineUsers_def getOnlineUsers_def slice_last_def)

text \<open>
  Claim C2, as amended. In a registry that binds each connection once (every registry
  the server reaches from the empty one), each \<open>online users\<close> payload that a handler
  broadcasts is the list of the names in the registry as the handler leaves it, one
  entry for each bound connection in the order of binding, so that a name bound to
  several connections is listed several times; the set of its entries is the set of
  the names bound to at least one connection. In particular, when two connections
  are bound to the same non-empty name and one of them disconnects, the payload
  broadcast by that disconnect still lists the name.
\<close>

theorem online_users_payload:
  assumes "distinct (map fst (users s))"
  shows "(IoEmit (OnlineUsers p) \<in> set (snd (server_step s e)) \<longrightarrow>
            p = map snd (users (fst (server_step s e))) \<and>
            set p = {n. \<exists>c. users_get (users (fst (server_step s e))) c = Some n}) \<and>
         distinct (map fst (users (fst (server_step s e)))) \<and>
         (c1 \<noteq> c2 \<and> users_get (users s) c1 = Some n \<and> users_get (users s) c2 = Some n \<and> n \<noteq> [] \<longrightarrow>
            (\<exists>p'. last (snd (disconnect c1 uuid now s)) = IoEmit (OnlineUsers p') \<and> n \<in> set p'))"
proof -
  have d: "distinct (map fst (users (fst (server_step s e))))"
    using assms by (rule step_users_distinct)
  have pay: "p = map snd (users (fst (server_step s e))) \<and>
            set p = {n. \<exists>c. users_get (users (fst (server_step s e))) c = Some n}"
    if "IoEmit (OnlineUsers p) \<in> set (snd (server_step s e))"
    using step_payload[OF that] bound_names[OF d] by (simp add: getOnlineUsers_def)
  have two: "\<exists>p'. last (snd (disconnect c1 uuid now s)) = IoEmit (OnlineUsers p') \<and> n \<in> set p'"
    if h: "c1 \<noteq> c2 \<and> users_get (users s) c1 = Some n \<and> users_get (users s) c2 = Some n \<and> n \<noteq> []"
  proof -
    from h have "c2 \<noteq> c1" by blast
    with h assms have "users_get (users_delete (users s) c1) c2 = Some n"
      by (simp add: users_get_delete)
    then have "(c2, n) \<in> set (users_delete (users s) c1)"
      by (rule users_get_Some_mem)
    then have "n \<in> set (map snd (users_delete (users s) c1))"
      by force
    with h show ?thesis
      by (simp add: disconnect_def Let_def push_and_emit_def broadcastOnlineUsers_def getOnlineUsers_def)
  qed
  from d pay two show ?thesis by blast
qed

theorem online_users_payload_witness:
  "distinct (map fst (users server_two_anas)) \<and>
   snd (server_step server_two_anas (''u7'', 70, EvDisconnect ''c1'')) =
     [IoEmit (ChatMessage \<lparr>id_msg = ''u7'', text_msg = ''Ana left the chat'', sender = ''System'',
        timestamp = 70, readBy = []\<rparr>),
      IoEmit (OnlineUsers [''Ana''])] \<and>
   users (fst (server_step server_two_anas (''u7'', 70, EvDisconnect ''c1''))) = [(''c2'', ''Ana'')] \<and>
   users_get (users server_two_anas) ''c1'' = Some ''Ana'' \<and>
   users_get (users server_two_anas) ''c2'' = Some ''Ana''"
  using online_users_payload[where s = server_two_anas and p = "[''Ana'']"
          and e = "(''u7'', 70, EvDisconnect ''c1'')" and ?c1.0 = "''c1''" and ?c2.0 = "''c2''"
          and n = "''Ana''" and uuid = "''u7''" and now = 70]
  by (simp add: server_two_anas_def disconnect_def Let_def push_and_emit_def systemMessage_def
        broadcastOnlineUsers_def getOnlineUsers_def)

section \<open>The log only grows\<close>

lemma record_grows_refl: "record_grows m m"
  by (simp add: record_grows_def)

lemma take_prefix_trans:
  "take (length xs) ys = xs \<Longrightarrow> take (length ys) zs = ys \<Longrightarrow> take (length xs) zs = xs"
proof -
  assume a: "take (length xs) ys = xs" and b: "take (length ys) zs = ys"
  have "length (take (length xs) ys) \<le> length ys"
    by simp
  with a have "length xs \<le> length ys"
    by simp
  then have "take (length xs) zs = take (length xs) (take (length ys) zs)"
    by (simp add: min_def)
  with a b show ?thesis by simp
qed

lemma record_grows_trans: "record_grows a b \<Longrightarrow> record_grows b c \<Longrightarrow> record_grows a c"
  by (auto simp: record_grows_def intro: take_prefix_trans)

lemma record_grows_subset: "record_grows m m' \<Longrightarrow> set (readBy m) \<subseteq> set (readBy m')"
  by (metis record_grows_def set_take_subset)

lemma log_grows_nth:
  "log_grows old new \<longleftrightarrow>
     length old \<le> length new \<and> (\<forall>i < length old. record_grows (old ! i) (new ! i))"
  by (auto simp: log_grows_def list_all2_conv_all_nth)

lemma log_grows_refl: "log_grows xs xs"
  by (simp add: log_grows_nth record_grows_refl)

lemma log_grows_trans: "log_grows xs ys \<Longrightarrow> log_grows ys zs \<Longrightarrow> log_grows xs zs"
  unfolding log_grows_nth
  by (meson order_trans less_le_trans record_grows_trans)

lemma log_grows_append: "log_grows xs (xs @ ys)"
  by (simp add: log_grows_nth nth_append record_grows_refl)

lemma log_grows_update:
  "i < length xs \<Longrightarrow> record_grows (xs ! i) m' \<Longrightarrow> log_grows xs (xs[i := m'])"
  by (simp add: log_grows_nth nth_list_update record_grows_refl)

lemma user_joined_messages:
  "messages (fst (user_joined socket_id uuid now s name)) =
     messages s @
       (if truthy (users_get (users s) socket_id) then
          (if the (users_get (users s) socket_id) \<noteq> name then
             [systemMessage uuid now
                (the (users_get (users s) socket_id) @ '' changed their name to '' @ name) [name]]
           else [])
        else [systemMessage uuid now (name @ '' joined the chat'') [name]])"
  by (simp add: user_joined_def Let_def push_and_emit_def split_def)

lemma step_messages_append:
  "\<not> is_read_receipt e \<Longrightarrow> \<exists>new. messages (fst (server_step s e)) = messages s @ new"
proof -
  assume n: "\<not> is_read_receipt e"
  obtain uuid now ev where e: "e = (uuid, now, ev)" by (cases e)
  show ?thesis
  proof (cases ev)
    case (EvUserJoined c name)
    with e show ?thesis by (simp add: user_joined_messages)
  next
    case (EvChangeUsername c old new)
    with e show ?thesis
      by (simp add: change_username_def Let_def push_and_emit_def split_def)
  next
    case (EvChatMessage t sn)
    with e show ?thesis by (simp add: chat_message_def push_and_emit_def)
  next
    case (EvReadReceipt m r)
    with e n show ?thesis by simp
  next
    case (EvDisconnect c)
    with e show ?thesis
      by (simp add: disconnect_def Let_def push_and_emit_def split_def)
  qed
qed

lemma read_receipt_grows: "log_grows (messages s) (messages (fst (read_receipt s m r)))"
proof (cases "findIndex (\<lambda>msg. id_msg msg = m) (messages s)")
  case None
  then show ?thesis by (simp add: read_receipt_def log_grows_refl)
next
  case (Some i)
  from findIndex_Some[OF Some] have il: "i < length (messages s)" by simp
  have "record_grows (messages s ! i) ((messages s ! i)\<lparr>readBy := readBy (messages s ! i) @ [r]\<rparr>)"
    by (simp add: record_grows_def)
  from log_grows_update[OF il this] Some show ?thesis
    by (simp add: read_receipt_def Let_def log_grows_refl)
qed

lemma step_grows: "log_grows (messages s) (messages (fst (server_step s e)))"
proof (cases "is_read_receipt e")
  case True
  then obtain uuid now m r where "e = (uuid, now, EvReadReceipt m r)"
    by (cases e rule: is_read_receipt.cases) simp_all
  then show ?thesis by (simp add: read_receipt_grows)
next
  case False
  from step_messages_append[OF False, of s] show ?thesis
    by (auto simp: log_grows_append)
qed

lemma run_grows: "log_grows (messages s) (messages (fst (run s es)))"
proof (induction es arbitrary: s)
  case Nil
  show ?case by (simp add: log_grows_refl)
next
  case (Cons e es)
  from log_grows_trans[OF step_grows[of s e] Cons.IH[of "fst (server_step s e)"]]
  show ?case by (simp add: split_def Let_def)
qed

lemma run_keeps_records:
  "\<forall>e \<in> set es. \<not> is_read_receipt e \<Longrightarrow>
     take (length (messages s)) (messages (fst (run s es))) = messages s"
proof (induction es arbitrary: s)
  case Nil
  show ?case by simp
next
  case (Cons e es)
  from Cons.prems have ne: "\<not> is_read_receipt e" and rest: "\<forall>e \<in> set es. \<not> is_read_receipt e"
    by simp_all
  from step_messages_append[OF ne, of s] obtain new
    where new: "messages (fst (server_step s e)) = messages s @ new" by blast
  have "take (length (messages s @ new)) (messages (fst (run (fst (server_step s e)) es))) = messages s @ new"
    using Cons.IH[OF rest, of "fst (server_step s e)"] new by simp
  then have "take (length (messages s)) (messages (fst (run (fst (server_step s e)) es))) = messages s"
    by (metis append_eq_conv_conj take_prefix_trans)
  then show ?case by (simp add: split_def Let_def)
qed

text \<open>
  Claim C5. Under every sequence of events (join, rename, post, read receipt,
  disconnect) the log grows: no record is removed, every record keeps its position
  and its id, text, sender and timestamp, and its old \<open>readBy\<close> is the front of its new
  \<open>readBy\<close>, so that no reader is ever removed. A sequence without a read receipt leaves
  the records that were in the log exactly as they were: only read receipts change
  \<open>readBy\<close>.
\<close>

theorem readBy_only_grows:
  "log_grows (messages s) (messages (fst (run s es))) \<and>
   (i < length (messages s) \<longrightarrow>
      i < length (messages (fst (run s es))) \<and>
      id_msg (messages (fst (run s es)) ! i) = id_msg (messages s ! i) \<and>
      set (readBy (messages s ! i)) \<subseteq> set (readBy (messages (fst (run s es)) ! i))) \<and>
   ((\<forall>e \<in> set es. \<not> is_read_receipt e) \<longrightarrow>
      take (length (messages s)) (messages (fst (run s es))) = messages s)"
proof -
  have g: "log_grows (messages s) (messages (fst (run s es)))"
    by (rule run_grows)
  have "i < length (messages (fst (run s es))) \<and>
      id_msg (messages (fst (run s es)) ! i) = id_msg (messages s ! i) \<and>
      set (readBy (messages s ! i)) \<subseteq> set (readBy (messages (fst (run s es)) ! i))"
    if i: "i < length (messages s)"
  proof -
    from g i have r: "record_grows (messages s ! i) (messages (fst (run s es)) ! i)"
      and l: "i < length (messages (fst (run s es)))"
      by (auto simp: log_grows_nth)
    from r l record_grows_subset[OF r] show ?thesis
      by (simp add: record_grows_def)
  qed
  with g run_keeps_records[of es s] show ?thesis by blast
qed

theorem readBy_only_grows_witness:
  "messages (fst (run server_two_anas
      [(''u5'', 50, EvReadReceipt ''m1'' ''Bob''), (''u6'', 60, EvDisconnect ''c2''),
       (''u7'', 70, EvReadReceipt ''m1'' ''Bob'')])) =
     [msg_hi\<lparr>readBy := [''Ana'', ''Bob'']\<rparr>,
      \<lparr>id_msg = ''u6'', text_msg = ''Ana left the chat'', sender = ''System'', timestamp = 60, readBy = []\<rparr>] \<and>
   (0::nat) < length (messages server_two_anas) \<and>
   messages (fst (run server_two_anas [(''u6'', 60, EvDisconnect ''c2'')])) =
     [msg_hi,
      \<lparr>id_msg = ''u6'', text_msg = ''Ana left the chat'', sender = ''System'', timestamp = 60, readBy = []\<rparr>]"
  using readBy_only_grows[where s = server_two_anas and i = 0 and es =
          "[(''u5'', 50, EvReadReceipt ''m1'' ''Bob''), (''u6'', 60, EvDisconnect ''c2''),
            (''u7'', 70, EvReadReceipt ''m1'' ''Bob'')]"]
        readBy_only_grows[where s = server_two_anas and i = 0 and es = "[(''u6'', 60, EvDisconnect ''c2'')]"]
  by (simp add: server_two_anas_def msg_hi_def read_receipt_def disconnect_def Let_def
        push_and_emit_def systemMessage_def broadcastOnlineUsers_def getOnlineUsers_def)

section \<open>The replay of the history on a join\<close>

lemma socket_pushes_append: "socket_pushes (xs @ ys) = socket_pushes xs @ socket_pushes ys"
  by (induction xs rule: socket_pushes.induct) simp_all

lemma socket_pushes_io: "socket_pushes (map (\<lambda>m. IoEmit (f m)) xs) = []"
  by (induction xs) simp_all

lemma socket_pushes_socket: "socket_pushes (map (\<lambda>m. SocketEmit c (f m)) xs) = map (\<lambda>m. (c, f m)) xs"
  by (induction xs) simp_all

lemma slice_last_drop: "slice_last n xs = drop (length xs - n) xs"
  by (simp add: slice_last_def)

lemma user_joined_out:
  "snd (user_joined socket_id uuid now s name) =
     map (\<lambda>m. IoEmit (ChatMessage m))
       (drop (length (messages s)) (messages (fst (user_joined socket_id uuid now s name)))) @
     map (\<lambda>m. SocketEmit socket_id (ChatMessage m))
       (slice_last 50 (sort_key timestamp (messages (fst (user_joined socket_id uuid now s name))))) @
     [IoEmit (OnlineUsers (map snd (users_set (users s) socket_id name)))]"
  by (simp add: user_joined_def Let_def push_and_emit_def split_def broadcastOnlineUsers_def
        getOnlineUsers_def)

text \<open>
  Claim C7. On every join the pushes that go to the joining connection alone are
  \<open>chat message\<close> pushes, one for each replayed record. The replayed records are in
  ascending order of timestamp; they are 50, or the whole log when it has fewer
  records; together with the records left out they are the records of the log, and
  no record left out is newer than a replayed one. The log itself keeps every
  record it had.
\<close>

theorem history_replay:
  "\<exists>older recent.
     socket_pushes (snd (user_joined socket_id uuid now s name)) =
       map (\<lambda>m. (socket_id, ChatMessage m)) recent \<and>
     length recent = min 50 (length (messages (fst (user_joined socket_id uuid now s name)))) \<and>
     sorted (map timestamp recent) \<and>
     mset (older @ recent) = mset (messages (fst (user_joined socket_id uuid now s name))) \<and>
     (\<forall>a \<in> set older. \<forall>b \<in> set recent. timestamp a \<le> timestamp b) \<and>
     length (messages s) \<le> length (messages (fst (user_joined socket_id uuid now s name))) \<and>
     take (length (messages s)) (messages (fst (user_joined socket_id uuid now s name))) = messages s"
proof -
  let ?log = "messages (fst (user_joined socket_id uuid now s name))"
  let ?sorted = "sort_key timestamp ?log"
  let ?older = "take (length ?sorted - 50) ?sorted"
  let ?recent = "drop (length ?sorted - 50) ?sorted"
  have split: "?older @ ?recent = ?sorted"
    by simp
  have srt: "sorted (map timestamp (?older @ ?recent))"
    by (simp only: split sorted_sort_key)
  have pushes: "socket_pushes (snd (user_joined socket_id uuid now s name)) =
       map (\<lambda>m. (socket_id, ChatMessage m)) ?recent"
    by (subst user_joined_out)
       (simp add: socket_pushes_append socket_pushes_io socket_pushes_socket slice_last_drop)
  have len: "length ?recent = min 50 (length ?log)"
    by simp
  have s1: "sorted (map timestamp ?recent)"
    using srt by (simp only: map_append sorted_append)
  have cross: "\<forall>a \<in> set ?older. \<forall>b \<in> set ?recent. timestamp a \<le> timestamp b"
    using srt by (simp only: map_append sorted_append set_map) blast
  have ms: "mset (?older @ ?recent) = mset ?log"
    by (simp only: split mset_sort)
  have keep: "length (messages s) \<le> length ?log \<and> take (length (messages s)) ?log = messages s"
    by (simp add: user_joined_messages)
  from pushes len s1 cross ms keep show ?thesis
    by blast
qed

theorem history_replay_witness:
  "socket_pushes (snd (user_joined ''c2'' ''u2'' 50 server_log3 ''Bob'')) =
     [(''c2'', ChatMessage msg_hi), (''c2'', ChatMessage msg_early), (''c2'', ChatMessage msg_late),
      (''c2'', ChatMessage \<lparr>id_msg = ''u2'', text_msg = ''Bob joined the chat'', sender = ''System'',
          timestamp = 50, readBy = [''Bob'']\<rparr>)] \<and>
   length (socket_pushes (snd (user_joined ''c9'' ''u9'' 99 server_log60 ''Zed''))) = 50 \<and>
   length (messages (fst (user_joined ''c9'' ''u9'' 99 server_log60 ''Zed''))) = 61"
proof -
  have small: "socket_pushes (snd (user_joined ''c2'' ''u2'' 50 server_log3 ''Bob'')) =
     [(''c2'', ChatMessage msg_hi), (''c2'', ChatMessage msg_early), (''c2'', ChatMessage msg_late),
      (''c2'', ChatMessage \<lparr>id_msg = ''u2'', text_msg = ''Bob joined the chat'', sender = ''System'',
          timestamp = 50, readBy = [''Bob'']\<rparr>)]"
    by (simp add: user_joined_def server_log3_def msg_hi_def msg_early_def msg_late_def Let_def
          push_and_emit_def systemMessage_def broadcastOnlineUsers_def getOnlineUsers_def
          slice_last_def)
  have l: "length (messages (fst (user_joined ''c9'' ''u9'' 99 server_log60 ''Zed''))) = 61"
    by (simp add: user_joined_messages server_log60_def)
  from history_replay[where socket_id = "''c9''" and uuid = "''u9''" and now = 99
        and s = server_log60 and name = "''Zed''"]
  obtain older recent where
    "socket_pushes (snd (user_joined ''c9'' ''u9'' 99 server_log60 ''Zed'')) =
       map (\<lambda>m. (''c9'', ChatMessage m)) recent"
    "length recent = min 50 (length (messages (fst (user_joined ''c9'' ''u9'' 99 server_log60 ''Zed''))))"
    by blast
  with l have "length (socket_pushes (snd (user_joined ''c9'' ''u9'' 99 server_log60 ''Zed''))) = 50"
    by simp
  with small l show ?thesis by simp
qed

section \<open>Joining and leaving\<close>

lemma broadcast_messages_append:
  "broadcast_messages (xs @ ys) = broadcast_messages xs @ broadcast_messages ys"
  by (induction xs rule: broadcast_messages.induct) simp_all

lemma broadcast_messages_io: "broadcast_messages (map (\<lambda>m. IoEmit (ChatMessage m)) xs) = xs"
  by (induction xs) simp_all

lemma broadcast_messages_socket: "broadcast_messages (map (\<lambda>m. SocketEmit c (f m)) xs) = []"
  by (induction xs) simp_all

text \<open>
  What \<open>user joined\<close> does in each of the three cases, for names that are not empty:
  the notice for a connection without a name, the notice of a changed name, and no
  notice when the name is the one already bound. The messages broadcast are the
  messages appended, and the connection is bound to the new name in every case.
\<close>

lemma user_joined_cases:
  "(users_get (users s) socket_id = None \<longrightarrow>
      messages (fst (user_joined socket_id uuid now s name)) =
        messages s @ [\<lparr>id_msg = uuid, text_msg = name @ '' joined the chat'', sender = ''System'',
                       timestamp = now, readBy = [name]\<rparr>]) \<and>
   (users_get (users s) socket_id = Some previous \<and> previous \<noteq> [] \<and> previous \<noteq> name \<longrightarrow>
      messages (fst (user_joined socket_id uuid now s name)) =
        messages s @ [\<lparr>id_msg = uuid, text_msg = previous @ '' changed their name to '' @ name,
                       sender = ''System'', timestamp = now, readBy = [name]\<rparr>]) \<and>
   (users_get (users s) socket_id = Some name \<and> name \<noteq> [] \<longrightarrow>
      messages (fst (user_joined socket_id uuid now s name)) = messages s) \<and>
   broadcast_messages (snd (user_joined socket_id uuid now s name)) =
      drop (length (messages s)) (messages (fst (user_joined socket_id uuid now s name))) \<and>
   users_get (users (fst (user_joined socket_id uuid now s name))) socket_id = Some name"
proof -
  have "broadcast_messages (snd (user_joined socket_id uuid now s name)) =
      drop (length (messages s)) (messages (fst (user_joined socket_id uuid now s name)))"
    by (subst user_joined_out)
       (simp add: broadcast_messages_append broadcast_messages_io broadcast_messages_socket)
  then show ?thesis
    by (simp add: user_joined_messages user_joined_users users_get_set systemMessage_def)
qed

text \<open>
  Claim C4, at a connection bound to the empty name. The connection \<open>c1\<close> has joined
  with the empty name and is bound to it. When it joins again as \<open>Bob\<close>, the notice
  appended is \<open>Bob joined the chat\<close>, the notice of a connection without a name, not
  the notice of a changed name; when it joins again with the empty name, a second
  notice \<open> joined the chat\<close> is appended, where a join with the bound name should
  append none. The test \<open>if (previousUsername)\<close> takes the empty name for no name.
\<close>

theorem user_joined_empty_name:
  "users_get (users server_empty_name) ''c1'' = Some [] \<and>
   messages server_empty_name =
     [\<lparr>id_msg = ''u1'', text_msg = '' joined the chat'', sender = ''System'',
       timestamp = 1, readBy = [[]]\<rparr>] \<and>
   messages (fst (user_joined ''c1'' ''u2'' 2 server_empty_name ''Bob'')) =
     messages server_empty_name @
       [\<lparr>id_msg = ''u2'', text_msg = ''Bob joined the chat'', sender = ''System'',
         timestamp = 2, readBy = [''Bob'']\<rparr>] \<and>
   messages (fst (user_joined ''c1'' ''u3'' 3 server_empty_name [])) =
     messages server_empty_name @
       [\<lparr>id_msg = ''u3'', text_msg = '' joined the chat'', sender = ''System'',
         timestamp = 3, readBy = [[]]\<rparr>]"
  by (simp add: server_empty_name_def initial_server_def user_joined_def Let_def push_and_emit_def
        systemMessage_def)

text \<open>
  What \<open>disconnect\<close> does for a connection bound to a name that is not empty: the
  notice \<open>X left the chat\<close> without readers is appended, the binding is removed, and
  the notice is broadcast before the online list, which is the list of the registry
  without the binding.
\<close>

lemma disconnect_bound:
  "users_get (users s) socket_id = Some name \<Longrightarrow> name \<noteq> [] \<Longrightarrow>
     disconnect socket_id uuid now s =
       (\<lparr>users = users_delete (users s) socket_id,
         messages = messages s @ [\<lparr>id_msg = uuid, text_msg = name @ '' left the chat'',
            sender = ''System'', timestamp = now, readBy = []\<rparr>]\<rparr>,
        [IoEmit (ChatMessage \<lparr>id_msg = uuid, text_msg = name @ '' left the chat'',
            sender = ''System'', timestamp = now, readBy = []\<rparr>),
         IoEmit (OnlineUsers (map snd (users_delete (users s) socket_id)))])"
  by (simp add: disconnect_def Let_def push_and_emit_def systemMessage_def broadcastOnlineUsers_def
        getOnlineUsers_def)

lemma disconnect_unbound:
  "users_get (users s) socket_id = None \<Longrightarrow> disconnect socket_id uuid now s = (s, [])"
  by (simp add: disconnect_def)

text \<open>
  Claim C6, at a connection bound to the empty name. The connection \<open>c1\<close> has joined
  with the empty name and is bound to it. When it disconnects, no notice is appended,
  nothing is broadcast, and the binding stays in the registry: the test
  \<open>if (username)\<close> takes the empty name for no name.
\<close>

theorem disconnect_empty_name:
  "users_get (users server_empty_name) ''c1'' = Some [] \<and>
   disconnect ''c1'' ''u2'' 2 server_empty_name = (server_empty_name, []) \<and>
   users (fst (disconnect ''c1'' ''u2'' 2 server_empty_name)) = [(''c1'', [])]"
  by (simp add: server_empty_name_def initial_server_def user_joined_def disconnect_def Let_def
        push_and_emit_def systemMessage_def)

end
